theory Spec2Isabelle
  imports Main "HOL-Library.Word"
begin

section \<open>The registry contract: MillionBaseToken.sol\<close>

text \<open>
  Solidity's \<open>uint256\<close> and \<open>address\<close> are words of 256 and 160 bits. The zero
  address \<open>address(0)\<close> is the word \<open>0\<close>.
\<close>

type_synonym uint256 = "256 word"
type_synonym address = "160 word"

text \<open>
  The contract's storage: the mapping \<open>claimedBy\<close> declared by the contract itself, the
  two storage variables of the inherited ERC20 (\<open>_totalSupply\<close>, \<open>_balances\<close>) and the
  owner slot of the inherited Ownable. A Solidity mapping is total: an absent key reads
  as the zero value.
\<close>

record state =
  claimedBy :: "uint256 \<Rightarrow> address"
  erc20_totalSupply :: uint256
  erc20_balances :: "address \<Rightarrow> uint256"
  owner :: address

text \<open>
  Every way a call can revert: the three \<open>require\<close> strings of the contract, the custom
  errors of the inherited library code, and the arithmetic panic of checked addition.
\<close>

datatype error =
    IndexOutOfRange
  | AlreadyClaimed
  | MaxSupplyReached
  | ERC20InvalidReceiver
  | OwnableUnauthorizedAccount
  | OwnableInvalidOwner
  | PanicOverflow

datatype event =
    Transfer address address uint256
  | Claimed address uint256
  | OwnershipTransferred address address

definition MAX_SUPPLY :: uint256 where
  "MAX_SUPPLY = 1000000"

definition totalSupply :: "state \<Rightarrow> uint256" where
  "totalSupply s = erc20_totalSupply s"

text \<open>
  \<open>_mint\<close> of the imported OpenZeppelin ERC20 (library code outside the repository):
  it reverts for the zero address, adds \<open>value\<close> to \<open>_totalSupply\<close> with Solidity 0.8's
  checked addition, adds it to the receiver's balance inside an \<open>unchecked\<close> block
  (wrapping), and emits \<open>Transfer(address(0), account, value)\<close>.
\<close>

definition mint :: "address \<Rightarrow> uint256 \<Rightarrow> state \<Rightarrow> error + (state \<times> event list)" where
  "mint account val s =
     (if account = 0 then Inl ERC20InvalidReceiver
      else if 2 ^ 256 \<le> unat (erc20_totalSupply s) + unat val then Inl PanicOverflow
      else Inr (s\<lparr>erc20_totalSupply := erc20_totalSupply s + val,
                  erc20_balances := (erc20_balances s)(account := erc20_balances s account + val)\<rparr>,
                [Transfer 0 account val]))"

text \<open>
  The constructor: \<open>ERC20("MillionBaseToken", "MBT") Ownable(msg.sender)\<close> with an empty
  body. Ownable's constructor rejects a zero initial owner and records the deployer.
\<close>

definition constructor :: "address \<Rightarrow> error + (state \<times> event list)" where
  "constructor sender =
     (if sender = 0 then Inl OwnableInvalidOwner
      else Inr (\<lparr>claimedBy = (\<lambda>_. 0), erc20_totalSupply = 0,
                 erc20_balances = (\<lambda>_. 0), owner = sender\<rparr>,
                [OwnershipTransferred 0 sender]))"

text \<open>
  \<open>claim(cellIndex)\<close> called by \<open>sender\<close> (\<open>msg.sender\<close>). A revert is \<open>Inl\<close> and
  leaves the storage as it was; success returns the value \<open>true\<close>, the new storage and
  the events emitted, in order.
\<close>

definition claim :: "address \<Rightarrow> uint256 \<Rightarrow> state \<Rightarrow> error + (bool \<times> state \<times> event list)" where
  "claim sender cellIndex s =
     (if \<not> cellIndex < MAX_SUPPLY then Inl IndexOutOfRange
      else if \<not> claimedBy s cellIndex = 0 then Inl AlreadyClaimed
      else if \<not> totalSupply s < MAX_SUPPLY then Inl MaxSupplyReached
      else (case mint sender 1 (s\<lparr>claimedBy := (claimedBy s)(cellIndex := sender)\<rparr>) of
              Inl e \<Rightarrow> Inl e
            | Inr (s', evs) \<Rightarrow> Inr (True, s', evs @ [Claimed sender cellIndex])))"

definition isClaimed :: "state \<Rightarrow> uint256 \<Rightarrow> bool" where
  "isClaimed s cellIndex = (claimedBy s cellIndex \<noteq> 0)"

text \<open>
  \<open>ownerClaim(to, cellIndex)\<close> called by \<open>sender\<close>; the modifier \<open>onlyOwner\<close> runs first.
\<close>

definition ownerClaim :: "address \<Rightarrow> address \<Rightarrow> uint256 \<Rightarrow> state \<Rightarrow> error + (state \<times> event list)" where
  "ownerClaim sender to cellIndex s =
     (if sender \<noteq> owner s then Inl OwnableUnauthorizedAccount
      else if \<not> cellIndex < MAX_SUPPLY then Inl IndexOutOfRange
      else if \<not> claimedBy s cellIndex = 0 then Inl AlreadyClaimed
      else mint to 1 (s\<lparr>claimedBy := (claimedBy s)(cellIndex := to)\<rparr>))"

subsection \<open>Executions\<close>

text \<open>
  The ledger runs transactions one after another. A transaction is a call of \<open>claim\<close>
  or of \<open>ownerClaim\<close> with its sender; a reverted transaction changes nothing.
\<close>

datatype call =
    Claim address uint256
  | OwnerClaim address address uint256

fun target :: "call \<Rightarrow> uint256" where
  "target (Claim sender cellIndex) = cellIndex"
| "target (OwnerClaim sender to cellIndex) = cellIndex"

fun transact :: "call \<Rightarrow> state \<Rightarrow> error + (state \<times> event list)" where
  "transact (Claim sender cellIndex) s =
     (case claim sender cellIndex s of Inl e \<Rightarrow> Inl e | Inr (b, s', evs) \<Rightarrow> Inr (s', evs))"
| "transact (OwnerClaim sender to cellIndex) s = ownerClaim sender to cellIndex s"

definition succeeds :: "call \<Rightarrow> state \<Rightarrow> bool" where
  "succeeds c s = (case transact c s of Inl e \<Rightarrow> False | Inr r \<Rightarrow> True)"

definition exec :: "call \<Rightarrow> state \<Rightarrow> state" where
  "exec c s = (case transact c s of Inl e \<Rightarrow> s | Inr (s', evs) \<Rightarrow> s')"

fun run :: "call list \<Rightarrow> state \<Rightarrow> state" where
  "run [] s = s"
| "run (c # cs) s = run cs (exec c s)"

text \<open>How many transactions of an execution win the cell \<open>i\<close>.\<close>

fun wins :: "uint256 \<Rightarrow> call list \<Rightarrow> state \<Rightarrow> nat" where
  "wins i [] s = 0"
| "wins i (c # cs) s =
     (if target c = i \<and> succeeds c s then 1 else 0) + wins i cs (exec c s)"

text \<open>
  The storage after the first million cells have all been claimed by the account \<open>10\<close>,
  in a contract deployed by the account \<open>13\<close>.
\<close>

definition sold_out :: state where
  "sold_out =
     \<lparr>claimedBy = (\<lambda>i. if i < MAX_SUPPLY then 10 else 0),
      erc20_totalSupply = MAX_SUPPLY,
      erc20_balances = (\<lambda>a. if a = 10 then MAX_SUPPLY else 0),
      owner = 13\<rparr>"

text \<open>The storage right after the account \<open>13\<close> has deployed the contract.\<close>

definition fresh :: state where
  "fresh = \<lparr>claimedBy = (\<lambda>_. 0), erc20_totalSupply = 0, erc20_balances = (\<lambda>_. 0), owner = 13\<rparr>"

text \<open>
  The storage after the account \<open>10\<close> has claimed the cells \<open>0, ..., n - 1\<close> of that
  contract, one transaction each.
\<close>

definition first_cells :: "nat \<Rightarrow> state" where
  "first_cells n =
     \<lparr>claimedBy = (\<lambda>i. if i < of_nat n then 10 else 0),
      erc20_totalSupply = of_nat n,
      erc20_balances = (\<lambda>a. if a = 10 then of_nat n else 0),
      owner = 13\<rparr>"

text \<open>The claimed cells, and the invariant of the registry.\<close>

definition claimed :: "state \<Rightarrow> uint256 set" where
  "claimed s = {i. claimedBy s i \<noteq> 0}"

definition registry_inv :: "state \<Rightarrow> bool" where
  "registry_inv s =
     (claimed s \<subseteq> {i. i < MAX_SUPPLY} \<and> unat (erc20_totalSupply s) = card (claimed s))"

section \<open>The client session: App.tsx\<close>

text \<open>
  The outcome of an awaited promise: fulfilled with a value, or rejected (the \<open>await\<close>
  throws).
\<close>

datatype 'a promise = Fulfilled 'a | Rejected

text \<open>
  The React state of \<open>App\<close> that the claim handler and the cell renderer read and write.
  \<open>contract\<close> says whether the signer-bound contract has been set (it is \<open>undefined\<close>
  until the wallet is connected). Cell indices are JavaScript numbers holding integers.
  \<open>inflight\<close> is not a variable of the source: it lists the \<open>isClaimed\<close> promises that
  have been issued and not settled yet, which the JavaScript runtime holds.
\<close>

record session =
  contract :: bool
  txPending :: bool
  totalSupply_st :: nat
  maxSupply :: nat
  clicked :: "int set"
  remoteClaimedSet :: "int set"
  inflight :: "int list"

definition App :: session where
  "App = \<lparr>contract = False, txPending = False, totalSupply_st = 0, maxSupply = 1000000,
           clicked = {}, remoteClaimedSet = {}, inflight = []\<rparr>"

text \<open>
  \<open>refreshSupply\<close>: both reads are awaited together (\<open>Promise.all\<close>) before either
  setter runs, so a failed read changes nothing and the function throws.
\<close>

definition refreshSupply :: "(nat \<times> nat) promise \<Rightarrow> session \<Rightarrow> session promise" where
  "refreshSupply reads s =
     (case reads of
        Rejected \<Rightarrow> Rejected
      | Fulfilled (supplyBN, maxBN) \<Rightarrow>
          Fulfilled (s\<lparr>totalSupply_st := supplyBN, maxSupply := maxBN\<rparr>))"

text \<open>
  The claim handler (\<open>claim\<close> in \<open>App\<close>), given the outcomes of its three awaits:
  \<open>contract.claim(cellIndex)\<close>, \<open>tx.wait()\<close> and \<open>refreshSupply()\<close>. Any rejection jumps
  to the \<open>catch\<close> block, which changes no state; \<open>finally\<close> resets \<open>txPending\<close>.
\<close>

definition claimHandler ::
  "int \<Rightarrow> unit promise \<Rightarrow> unit promise \<Rightarrow> (nat \<times> nat) promise \<Rightarrow> session \<Rightarrow> session" where
  "claimHandler cellIndex sent mined reads s =
     (if \<not> contract s \<or> txPending s then s
      else
        let s1 = s\<lparr>txPending := True\<rparr> in
        (case sent of
           Rejected \<Rightarrow> s1\<lparr>txPending := False\<rparr>
         | Fulfilled tx \<Rightarrow>
             (case mined of
                Rejected \<Rightarrow> s1\<lparr>txPending := False\<rparr>
              | Fulfilled u \<Rightarrow>
                  (case refreshSupply reads s1 of
                     Rejected \<Rightarrow> s1\<lparr>txPending := False\<rparr>
                   | Fulfilled s2 \<Rightarrow>
                       s2\<lparr>clicked := insert cellIndex (clicked s2), txPending := False\<rparr>))))"

text \<open>
  The same handler, one step per \<open>await\<close>. The handler is an \<open>async\<close> function: at
  each \<open>await\<close> it is suspended and the event loop runs other steps of the session
  (renders, lookup callbacks) before it resumes, so every step below takes the session
  state as it is when the step runs. A step either leaves the handler suspended at its
  next \<open>await\<close> or finishes it (after \<open>finally\<close>).
\<close>

datatype running = Suspended session | Finished session

text \<open>Up to \<open>await contract.claim(cellIndex)\<close>: the guard and \<open>setTxPending(true)\<close>.\<close>

definition claim_start :: "session \<Rightarrow> running" where
  "claim_start s =
     (if \<not> contract s \<or> txPending s then Finished s
      else Suspended (s\<lparr>txPending := True\<rparr>))"

text \<open>\<open>contract.claim(cellIndex)\<close> has settled; next is \<open>await tx.wait()\<close>.\<close>

definition claim_sent :: "unit promise \<Rightarrow> session \<Rightarrow> running" where
  "claim_sent sent s =
     (case sent of
        Rejected \<Rightarrow> Finished (s\<lparr>txPending := False\<rparr>)
      | Fulfilled tx \<Rightarrow> Suspended s)"

text \<open>
  \<open>tx.wait()\<close> has settled: when it is fulfilled the claim is mined, and the handler
  is suspended at \<open>await refreshSupply()\<close>.
\<close>

definition claim_mined :: "unit promise \<Rightarrow> session \<Rightarrow> running" where
  "claim_mined mined s =
     (case mined of
        Rejected \<Rightarrow> Finished (s\<lparr>txPending := False\<rparr>)
      | Fulfilled u \<Rightarrow> Suspended s)"

text \<open>
  \<open>refreshSupply()\<close> has settled: when it is fulfilled \<open>setClicked\<close> adds the index,
  otherwise \<open>catch\<close> runs; \<open>finally\<close> resets \<open>txPending\<close> either way.
\<close>

definition claim_refreshed :: "int \<Rightarrow> (nat \<times> nat) promise \<Rightarrow> session \<Rightarrow> running" where
  "claim_refreshed cellIndex reads s =
     (case refreshSupply reads s of
        Rejected \<Rightarrow> Finished (s\<lparr>txPending := False\<rparr>)
      | Fulfilled s2 \<Rightarrow>
          Finished (s2\<lparr>clicked := insert cellIndex (clicked s2), txPending := False\<rparr>))"

text \<open>
  A connected session in which a claim handler is running (\<open>txPending\<close> is set) and
  nothing has been clicked or confirmed yet.
\<close>

definition awaiting :: session where
  "awaiting = \<lparr>contract = True, txPending = True, totalSupply_st = 0, maxSupply = 1000000,
                clicked = {}, remoteClaimedSet = {}, inflight = []\<rparr>"

text \<open>
  What a cell shows: \<open>isClicked = isRemoteClaimed || clicked.has(cellIndex)\<close>, the
  presentation view of the index.
\<close>

definition isClicked :: "session \<Rightarrow> int \<Rightarrow> bool" where
  "isClicked s cellIndex = (cellIndex \<in> remoteClaimedSet s \<or> cellIndex \<in> clicked s)"

text \<open>
  The cell renderer. It returns \<open>None\<close> where the source returns \<open>null\<close>, and otherwise
  the value of \<open>isClicked\<close> the cell is drawn with. \<open>queryFrom\<close> is
  \<open>contract ?? readContract\<close> and \<open>readContract\<close> is a module constant, so it is always
  defined: the query is fired whenever the index is not in \<open>remoteClaimedSet\<close>.
\<close>

definition Cell :: "int \<Rightarrow> int \<Rightarrow> int \<Rightarrow> session \<Rightarrow> bool option \<times> session" where
  "Cell columns columnIndex rowIndex s =
     (let cellIndex = rowIndex * columns + columnIndex in
      if cellIndex \<ge> 1000000 then (None, s)
      else
        let isRemoteClaimed = cellIndex \<in> remoteClaimedSet s;
            s' = (if \<not> isRemoteClaimed then s\<lparr>inflight := inflight s @ [cellIndex]\<rparr> else s)
        in (Some (isRemoteClaimed \<or> cellIndex \<in> clicked s), s'))"

text \<open>The two callbacks of the query: \<open>.then((claimed) => ...)\<close> and \<open>.catch(() => {})\<close>.\<close>

definition isClaimed_then :: "int \<Rightarrow> bool \<Rightarrow> session \<Rightarrow> session" where
  "isClaimed_then cellIndex claimed_flag s =
     (let s' = s\<lparr>inflight := remove1 cellIndex (inflight s)\<rparr> in
      if claimed_flag then s'\<lparr>remoteClaimedSet := insert cellIndex (remoteClaimedSet s')\<rparr>
      else s')"

definition isClaimed_catch :: "int \<Rightarrow> session \<Rightarrow> session" where
  "isClaimed_catch cellIndex s = s\<lparr>inflight := remove1 cellIndex (inflight s)\<rparr>"

text \<open>
  \<open>connectWallet\<close> as far as this state goes: it sets \<open>contract\<close> when every step before
  \<open>setContract\<close> went through.
\<close>

definition connectWallet :: "bool \<Rightarrow> session \<Rightarrow> session" where
  "connectWallet connected s = (if connected then s\<lparr>contract := True\<rparr> else s)"

text \<open>
  A session is a sequence of these steps, run one at a time by the single-threaded
  event loop.
\<close>

datatype action =
    Render int int int
  | IsClaimedThen int bool
  | IsClaimedCatch int
  | ClaimClick int "unit promise" "unit promise" "(nat \<times> nat) promise"
  | ConnectWallet bool
  | RefreshSupply "(nat \<times> nat) promise"

fun perform :: "action \<Rightarrow> session \<Rightarrow> session" where
  "perform (Render columns columnIndex rowIndex) s = snd (Cell columns columnIndex rowIndex s)"
| "perform (IsClaimedThen cellIndex claimed_flag) s = isClaimed_then cellIndex claimed_flag s"
| "perform (IsClaimedCatch cellIndex) s = isClaimed_catch cellIndex s"
| "perform (ClaimClick cellIndex sent mined reads) s = claimHandler cellIndex sent mined reads s"
| "perform (ConnectWallet connected) s = connectWallet connected s"
| "perform (RefreshSupply reads) s =
     (case refreshSupply reads s of Rejected \<Rightarrow> s | Fulfilled s' \<Rightarrow> s')"

fun session_run :: "action list \<Rightarrow> session \<Rightarrow> session" where
  "session_run [] s = s"
| "session_run (a # as) s = session_run as (perform a s)"

section \<open>The registry invariant\<close>

lemma unat_image_valid: "unat ` {i::uint256. i < 1000000} = {n. n < 1000000}"
proof (rule set_eqI, rule iffI)
  fix n assume "n \<in> unat ` {i::uint256. i < 1000000}"
  then show "n \<in> {n. n < 1000000}" by (auto simp: word_less_nat_alt)
next
  fix n :: nat assume "n \<in> {n. n < 1000000}"
  then have n: "n < 1000000" by simp
  then have u: "unat (of_nat n :: uint256) = n" by (simp add: unat_of_nat)
  then have "(of_nat n :: uint256) < 1000000" using n by (simp add: word_less_nat_alt)
  then show "n \<in> unat ` {i::uint256. i < 1000000}" using u by force
qed

lemma card_valid: "card {i::uint256. i < MAX_SUPPLY} = 1000000"
proof -
  have "card (unat ` {i::uint256. i < 1000000}) = card {i::uint256. i < 1000000}"
    by (rule card_image) (simp add: inj_on_def word_unat_eq_iff)
  then show ?thesis by (simp add: unat_image_valid MAX_SUPPLY_def)
qed

lemma claimed_update:
  "a \<noteq> 0 \<Longrightarrow> claimed (s\<lparr>claimedBy := (claimedBy s)(i := a)\<rparr>) = insert i (claimed s)"
  by (auto simp: claimed_def)

lemma mint_claimed: "mint a v s = Inr (s', evs) \<Longrightarrow> claimed s' = claimed s"
  by (auto simp: mint_def claimed_def split: if_splits)

lemma inv_count_le: "registry_inv s \<Longrightarrow> unat (erc20_totalSupply s) \<le> 1000000"
proof -
  assume a: "registry_inv s"
  then have "card (claimed s) \<le> card {i::uint256. i < MAX_SUPPLY}"
    by (intro card_mono) (auto simp: registry_inv_def)
  then show ?thesis using a by (simp add: registry_inv_def card_valid)
qed

lemma inv_free_lt:
  assumes "registry_inv s" "i < MAX_SUPPLY" "claimedBy s i = 0"
  shows "unat (erc20_totalSupply s) < 1000000"
proof -
  have "claimed s \<subset> {i. i < MAX_SUPPLY}"
    using assms by (auto simp: registry_inv_def claimed_def)
  then have "card (claimed s) < card {i::uint256. i < MAX_SUPPLY}"
    by (intro psubset_card_mono) auto
  then show ?thesis using assms(1) by (simp add: registry_inv_def card_valid)
qed

lemma inv_step:
  assumes "registry_inv s" "i < MAX_SUPPLY" "claimedBy s i = 0"
    and "mint a 1 (s\<lparr>claimedBy := (claimedBy s)(i := a)\<rparr>) = Inr (s', evs)"
  shows "registry_inv s'"
proof -
  have a: "a \<noteq> 0" using assms(4) by (auto simp: mint_def split: if_splits)
  have c: "claimed s' = insert i (claimed s)"
    using mint_claimed[OF assms(4)] claimed_update[OF a] by simp
  have ni: "i \<notin> claimed s" using assms(3) by (simp add: claimed_def)
  have fin: "finite (claimed s)" by simp
  have t: "erc20_totalSupply s' = erc20_totalSupply s + 1"
    using assms(4) by (auto simp: mint_def split: if_splits)
  have lt: "unat (erc20_totalSupply s) < 1000000" using inv_free_lt[OF assms(1-3)] .
  have "unat (erc20_totalSupply s + 1) = unat (erc20_totalSupply s) + 1"
    using lt by (simp add: unat_word_ariths)
  then show ?thesis
    using assms(1,2) c ni fin t by (auto simp: registry_inv_def)
qed

lemma inv_exec: "registry_inv s \<Longrightarrow> registry_inv (exec c s)"
proof (cases c)
  case (Claim sender i)
  assume "registry_inv s"
  then show ?thesis using Claim
    by (auto simp: exec_def claim_def split: sum.splits if_splits prod.splits dest: inv_step)
next
  case (OwnerClaim sender to i)
  assume "registry_inv s"
  then show ?thesis using OwnerClaim
    by (auto simp: exec_def ownerClaim_def split: sum.splits if_splits prod.splits dest: inv_step)
qed

lemma inv_run: "registry_inv s \<Longrightarrow> registry_inv (run cs s)"
  by (induction cs arbitrary: s) (auto simp: inv_exec)

lemma inv_constructor: "constructor d = Inr (s, evs) \<Longrightarrow> registry_inv s"
  by (auto simp: constructor_def registry_inv_def claimed_def split: if_splits)

section \<open>A claimed cell stays claimed\<close>

lemma exec_keeps_claimant: "claimedBy s i \<noteq> 0 \<Longrightarrow> claimedBy (exec c s) i = claimedBy s i"
  by (cases c)
    (auto simp: exec_def claim_def ownerClaim_def mint_def split: sum.splits if_splits prod.splits)

lemma run_keeps_claimant: "claimedBy s i \<noteq> 0 \<Longrightarrow> claimedBy (run cs s) i = claimedBy s i"
  by (induction cs arbitrary: s) (auto simp: exec_keeps_claimant)

lemma success_sets_claimant: "succeeds c s \<Longrightarrow> claimedBy (exec c s) (target c) \<noteq> 0"
  by (cases c)
    (auto simp: succeeds_def exec_def claim_def ownerClaim_def mint_def
          split: sum.splits if_splits prod.splits)

lemma taken_not_succeeds: "claimedBy s (target c) \<noteq> 0 \<Longrightarrow> \<not> succeeds c s"
  by (cases c)
    (auto simp: succeeds_def claim_def ownerClaim_def split: sum.splits if_splits prod.splits)

lemma taken_claim_fails: "claimedBy s i \<noteq> 0 \<Longrightarrow> \<exists>e. claim sender i s = Inl e"
  by (auto simp: claim_def)

lemma taken_wins_0: "claimedBy s i \<noteq> 0 \<Longrightarrow> wins i cs s = 0"
proof (induction cs arbitrary: s)
  case Nil
  then show ?case by simp
next
  case (Cons c cs)
  have "claimedBy (exec c s) i \<noteq> 0" using Cons.prems by (simp add: exec_keeps_claimant)
  then have "wins i cs (exec c s) = 0" by (rule Cons.IH)
  moreover have "\<not> (target c = i \<and> succeeds c s)" using Cons.prems taken_not_succeeds by blast
  ultimately show ?case by simp
qed

lemma wins_le_1: "wins i cs s \<le> 1"
proof (induction cs arbitrary: s)
  case Nil
  then show ?case by simp
next
  case (Cons c cs)
  show ?case
  proof (cases "target c = i \<and> succeeds c s")
    case True
    then have "claimedBy (exec c s) i \<noteq> 0" using success_sets_claimant by blast
    then have "wins i cs (exec c s) = 0" by (rule taken_wins_0)
    then show ?thesis using True by simp
  next
    case False
    then show ?thesis using Cons.IH[of "exec c s"] by auto
  qed
qed

text \<open>
  Claim C1. For every index \<open>i\<close>, at most one successful claim of \<open>i\<close> occurs in any
  execution, from any storage and whoever the senders are: the transactions of an
  execution that win \<open>i\<close> number at most one. Once a \<open>claim\<close> or an \<open>ownerClaim\<close> for \<open>i\<close>
  has succeeded, \<open>claimedBy[i]\<close> is not the zero address, it keeps that value through
  every later execution \<open>cs\<close>, and after \<open>cs\<close> every \<open>claim(i)\<close> and every \<open>ownerClaim\<close>
  for \<open>i\<close> reverts, so that no later transaction wins \<open>i\<close>. Concurrent submissions are
  transactions that the ledger runs in some order, which is what an execution is.
\<close>

theorem claim_at_most_once:
  "wins i cs s \<le> 1 \<and>
   (target c = i \<and> succeeds c s \<longrightarrow>
      claimedBy (exec c s) i \<noteq> 0 \<and>
      claimedBy (run cs (exec c s)) i = claimedBy (exec c s) i \<and>
      (\<forall>sender. \<exists>e. claim sender i (run cs (exec c s)) = Inl e) \<and>
      (\<forall>sender to. \<exists>e. ownerClaim sender to i (run cs (exec c s)) = Inl e) \<and>
      wins i cs (exec c s) = 0)"
proof (intro conjI impI allI)
  show "wins i cs s \<le> 1" by (rule wins_le_1)
next
  assume a: "target c = i \<and> succeeds c s"
  then show t: "claimedBy (exec c s) i \<noteq> 0" using success_sets_claimant by blast
  then show k: "claimedBy (run cs (exec c s)) i = claimedBy (exec c s) i"
    by (rule run_keeps_claimant)
  show "wins i cs (exec c s) = 0" using t by (rule taken_wins_0)
  fix sender
  show "\<exists>e. claim sender i (run cs (exec c s)) = Inl e"
    using t k by (simp add: taken_claim_fails)
  fix to
  show "\<exists>e. ownerClaim sender to i (run cs (exec c s)) = Inl e"
    using t k by (simp add: ownerClaim_def)
qed

theorem claim_at_most_once_witness:
  "succeeds (Claim 2 5) fresh \<and>
   wins 5 [Claim 2 5, Claim 3 5, OwnerClaim 13 4 5, Claim 3 6] fresh = 1 \<and>
   claimedBy (exec (Claim 2 5) fresh) 5 = 2 \<and>
   claimedBy (run [Claim 3 5, OwnerClaim 13 4 5, Claim 3 6] (exec (Claim 2 5) fresh)) 5 = 2 \<and>
   claim 3 5 (run [Claim 3 5, OwnerClaim 13 4 5, Claim 3 6] (exec (Claim 2 5) fresh)) =
     Inl AlreadyClaimed \<and>
   wins 5 [Claim 3 5, OwnerClaim 13 4 5, Claim 3 6] (exec (Claim 2 5) fresh) = 0"
  using claim_at_most_once
    [of 5 "[Claim 3 5, OwnerClaim 13 4 5, Claim 3 6]" "exec (Claim 2 5) fresh" "Claim 2 5"]
  by (simp add: claim_def ownerClaim_def mint_def fresh_def MAX_SUPPLY_def totalSupply_def
      succeeds_def exec_def)

section \<open>What a claim does\<close>

text \<open>
  Claim C2. For every index below \<open>MAX_SUPPLY\<close>, \<open>claim(index)\<close> succeeds if and only if
  \<open>claimedBy[index]\<close> is the zero address and \<open>totalSupply()\<close> is below \<open>MAX_SUPPLY\<close>; on
  success it returns \<open>true\<close>, sets \<open>claimedBy[index]\<close> to the caller and changes no other
  cell, increments \<open>totalSupply()\<close> by one (without wrapping), and emits the mint's
  \<open>Transfer\<close> followed by \<open>Claimed(caller, index)\<close>. The caller is \<open>msg.sender\<close>, which
  is never the zero address for a transaction.
\<close>

theorem claim_succeeds_iff:
  assumes "cellIndex < MAX_SUPPLY" and "sender \<noteq> 0"
  shows "((\<exists>r. claim sender cellIndex s = Inr r) \<longleftrightarrow>
            claimedBy s cellIndex = 0 \<and> totalSupply s < MAX_SUPPLY) \<and>
         (\<forall>b s' evs. claim sender cellIndex s = Inr (b, s', evs) \<longrightarrow>
            b \<and> claimedBy s' = (claimedBy s)(cellIndex := sender) \<and>
            totalSupply s' = totalSupply s + 1 \<and>
            unat (totalSupply s') = unat (totalSupply s) + 1 \<and>
            evs = [Transfer 0 sender 1, Claimed sender cellIndex])"
proof -
  have lt: "unat (erc20_totalSupply s) + 1 < 2 ^ 256" if "erc20_totalSupply s < MAX_SUPPLY"
    using that by (simp add: word_less_nat_alt MAX_SUPPLY_def)
  then have u: "unat (erc20_totalSupply s + 1) = unat (erc20_totalSupply s) + 1"
    if "erc20_totalSupply s < MAX_SUPPLY"
    using that by (simp add: unat_word_ariths word_less_nat_alt MAX_SUPPLY_def)
  show ?thesis
    using assms lt u
    by (auto simp: claim_def mint_def totalSupply_def split: if_splits)
qed

theorem claim_succeeds_iff_witness:
  "(5::uint256) < MAX_SUPPLY \<and> (2::address) \<noteq> 0 \<and>
   claimedBy fresh 5 = 0 \<and> totalSupply fresh < MAX_SUPPLY \<and>
   claim 2 5 fresh =
     Inr (True,
          fresh\<lparr>claimedBy := (claimedBy fresh)(5 := 2), erc20_totalSupply := 1,
                 erc20_balances := (erc20_balances fresh)(2 := 1)\<rparr>,
          [Transfer 0 2 1, Claimed 2 5])"
  using claim_succeeds_iff [of 5 2 fresh]
  by (simp add: claim_def mint_def fresh_def MAX_SUPPLY_def totalSupply_def)

section \<open>The cap\<close>

lemma run_append: "run (xs @ ys) s = run ys (run xs s)"
  by (induction xs arbitrary: s) auto

lemma unat_small: "n \<le> 1000000 \<Longrightarrow> unat (of_nat n :: uint256) = n"
  by (simp add: unat_of_nat)

lemma first_cells_step:
  assumes "n < 1000000"
  shows "exec (Claim 10 (of_nat n)) (first_cells n) = first_cells (Suc n)"
proof -
  have un: "unat (of_nat n :: uint256) = n" using assms by (simp add: unat_small)
  have un1: "unat (1 + of_nat n :: uint256) = Suc n"
    using unat_small[of "Suc n"] assms by simp
  have r: "(of_nat n :: uint256) < MAX_SUPPLY"
    using assms un by (simp add: word_less_nat_alt MAX_SUPPLY_def)
  have c: "(i < (1 + of_nat n :: uint256)) = (i < of_nat n \<or> i = of_nat n)" for i
    using un un1 by (auto simp: word_less_nat_alt word_unat_eq_iff)
  have t: "(10::address) \<noteq> 0" by simp
  show ?thesis
    using r un assms t
    by (simp add: exec_def claim_def mint_def first_cells_def totalSupply_def
        fun_eq_iff c add.commute)
qed

lemma first_cells_run:
  "n \<le> 1000000 \<Longrightarrow> run (map (\<lambda>k. Claim 10 (of_nat k)) [0..<n]) fresh = first_cells n"
proof (induction n)
  case 0
  then show ?case by (simp add: fresh_def first_cells_def fun_eq_iff)
next
  case (Suc n)
  then show ?case by (simp add: run_append first_cells_step del: of_nat_Suc)
qed

text \<open>
  The storage \<open>sold_out\<close> is the one the contract has after its deployment by the
  account \<open>13\<close> and the million transactions \<open>claim(0)\<close>, ..., \<open>claim(999999)\<close> of the
  account \<open>10\<close>.
\<close>

lemma sold_out_reachable:
  "constructor 13 = Inr (fresh, [OwnershipTransferred 0 13]) \<and>
   run (map (\<lambda>k. Claim 10 (of_nat k)) [0..<1000000]) fresh = sold_out"
proof
  show "constructor 13 = Inr (fresh, [OwnershipTransferred 0 13])"
    by (simp add: constructor_def fresh_def)
next
  have e: "first_cells 1000000 = sold_out"
    by (simp add: first_cells_def sold_out_def MAX_SUPPLY_def fun_eq_iff)
  have "run (map (\<lambda>k. Claim 10 (of_nat k)) [0..<1000000]) fresh = first_cells 1000000"
    by (rule first_cells_run) simp
  then show "run (map (\<lambda>k. Claim 10 (of_nat k)) [0..<1000000]) fresh = sold_out"
    by (simp only: e)
qed

text \<open>
  Claim C3, as stated, fails. The claim: a claim attempt made when \<open>totalSupply()\<close>
  equals \<open>MAX_SUPPLY\<close> fails with "Max supply reached" whatever the state of the target
  cell. In the storage \<open>sold_out\<close> the supply is at the cap and \<open>claim(0)\<close> by the account
  \<open>11\<close> reverts with "already claimed": the cell is checked before the cap.
\<close>

theorem cap_reached_counterexample:
  "totalSupply sold_out = MAX_SUPPLY \<and> claim 11 0 sold_out = Inl AlreadyClaimed \<and>
   claim 11 0 sold_out \<noteq> Inl MaxSupplyReached"
  by (simp add: sold_out_def totalSupply_def claim_def MAX_SUPPLY_def)

text \<open>
  Claim C3, amended. A claim attempt made when \<open>totalSupply()\<close> equals \<open>MAX_SUPPLY\<close>
  always fails, for every index and every state of the target cell; the three checks
  run in the order of the source, so the revert is "index out of range" for an index
  not below \<open>MAX_SUPPLY\<close>, "already claimed" for a claimed cell, and "Max supply
  reached" exactly when the index is in range and the cell is free.
\<close>

theorem claim_at_cap:
  "totalSupply s = MAX_SUPPLY \<Longrightarrow>
   claim sender cellIndex s =
     Inl (if \<not> cellIndex < MAX_SUPPLY then IndexOutOfRange
          else if claimedBy s cellIndex \<noteq> 0 then AlreadyClaimed
          else MaxSupplyReached)"
  by (simp add: claim_def)

theorem claim_at_cap_witness:
  "totalSupply sold_out = MAX_SUPPLY \<and> claim 11 0 sold_out = Inl AlreadyClaimed \<and>
   claim 11 1000000 sold_out = Inl IndexOutOfRange"
  using claim_at_cap [of sold_out 11 0] claim_at_cap [of sold_out 11 1000000]
  by (simp add: sold_out_def totalSupply_def MAX_SUPPLY_def)

text \<open>
  Claim C4. In every state reached from the deployed contract by any sequence of
  \<open>claim\<close> and \<open>ownerClaim\<close> transactions (successful or reverted), \<open>totalSupply()\<close> is
  the number of indices whose claimant is not the zero address, and it never exceeds
  \<open>MAX_SUPPLY\<close>, which is 1000000.
\<close>

theorem count_matches_claimed:
  "constructor d = Inr (s0, evs) \<Longrightarrow>
   unat (totalSupply (run cs s0)) = card {i. claimedBy (run cs s0) i \<noteq> 0} \<and>
   totalSupply (run cs s0) \<le> MAX_SUPPLY \<and>
   unat (totalSupply (run cs s0)) \<le> 1000000"
proof -
  assume "constructor d = Inr (s0, evs)"
  then have i: "registry_inv (run cs s0)" by (simp add: inv_constructor inv_run)
  then have "unat (erc20_totalSupply (run cs s0)) \<le> 1000000" by (rule inv_count_le)
  then show ?thesis using i
    by (simp add: registry_inv_def claimed_def totalSupply_def word_le_nat_alt MAX_SUPPLY_def)
qed

theorem count_matches_claimed_witness:
  "constructor 13 = Inr (fresh, [OwnershipTransferred 0 13]) \<and>
   unat (totalSupply (run [Claim 2 5, OwnerClaim 13 4 6, Claim 3 5] fresh)) = 2 \<and>
   card {i. claimedBy (run [Claim 2 5, OwnerClaim 13 4 6, Claim 3 5] fresh) i \<noteq> 0} = 2 \<and>
   totalSupply (run [Claim 2 5, OwnerClaim 13 4 6, Claim 3 5] fresh) \<le> MAX_SUPPLY"
proof -
  have c: "constructor 13 = Inr (fresh, [OwnershipTransferred 0 13])"
    by (simp add: constructor_def fresh_def)
  have t: "unat (totalSupply (run [Claim 2 5, OwnerClaim 13 4 6, Claim 3 5] fresh)) = 2"
    by (simp add: claim_def ownerClaim_def mint_def fresh_def MAX_SUPPLY_def totalSupply_def
        exec_def)
  show ?thesis
    using c t count_matches_claimed [OF c, of "[Claim 2 5, OwnerClaim 13 4 6, Claim 3 5]"]
    by simp
qed

text \<open>
  Claim C7. In every state reached from the deployed contract, for every index \<open>i\<close>
  whose claimant is not the zero address and every caller, \<open>claim(i)\<close> reverts with
  "already claimed" and leaves the whole storage as it was, however many times it is
  submitted again.
\<close>

theorem failed_resubmission:
  assumes "constructor d = Inr (s0, evs)" and "claimedBy (run cs s0) i \<noteq> 0"
  shows "claim sender i (run cs s0) = Inl AlreadyClaimed \<and>
         exec (Claim sender i) (run cs s0) = run cs s0 \<and>
         run (replicate n (Claim sender i)) (run cs s0) = run cs s0"
proof -
  have "registry_inv (run cs s0)" using assms(1) by (simp add: inv_constructor inv_run)
  then have "i < MAX_SUPPLY" using assms(2) by (auto simp: registry_inv_def claimed_def)
  then have f: "claim sender i (run cs s0) = Inl AlreadyClaimed"
    using assms(2) by (simp add: claim_def)
  then have e: "exec (Claim sender i) (run cs s0) = run cs s0" by (simp add: exec_def)
  have "run (replicate n (Claim sender i)) (run cs s0) = run cs s0"
    by (induction n) (simp_all add: e)
  then show ?thesis using f e by simp
qed

theorem failed_resubmission_witness:
  "constructor 13 = Inr (fresh, [OwnershipTransferred 0 13]) \<and>
   claimedBy (run [Claim 2 5] fresh) 5 \<noteq> 0 \<and>
   claim 3 5 (run [Claim 2 5] fresh) = Inl AlreadyClaimed \<and>
   exec (Claim 3 5) (run [Claim 2 5] fresh) = run [Claim 2 5] fresh \<and>
   run (replicate 4 (Claim 3 5)) (run [Claim 2 5] fresh) = run [Claim 2 5] fresh"
proof -
  have c: "constructor 13 = Inr (fresh, [OwnershipTransferred 0 13])"
    by (simp add: constructor_def fresh_def)
  have t: "claimedBy (run [Claim 2 5] fresh) 5 \<noteq> 0"
    by (simp add: claim_def mint_def fresh_def MAX_SUPPLY_def totalSupply_def exec_def)
  show ?thesis
    using c t failed_resubmission [OF c t, of 3 4] by simp
qed

text \<open>
  Claim C10. The cap check of \<open>claim\<close> never fires. In every state reached from the
  deployed contract by \<open>claim\<close> and \<open>ownerClaim\<close> transactions, \<open>totalSupply()\<close> is the
  number of claimed cells, all of them among the 1000000 valid indices; so where the
  first two checks of \<open>claim\<close> pass (the index is below \<open>MAX_SUPPLY\<close> and its cell is
  free), \<open>totalSupply()\<close> is below \<open>MAX_SUPPLY\<close>, and no call of \<open>claim\<close> reverts with
  "Max supply reached".
\<close>

theorem cap_check_never_fires:
  assumes "constructor d = Inr (s0, evs)"
  shows "claim sender cellIndex (run cs s0) \<noteq> Inl MaxSupplyReached \<and>
         unat (totalSupply (run cs s0)) = card {i. claimedBy (run cs s0) i \<noteq> 0} \<and>
         (cellIndex < MAX_SUPPLY \<and> claimedBy (run cs s0) cellIndex = 0 \<longrightarrow>
            totalSupply (run cs s0) < MAX_SUPPLY)"
proof -
  have i: "registry_inv (run cs s0)" using assms by (simp add: inv_constructor inv_run)
  have l: "totalSupply (run cs s0) < MAX_SUPPLY"
    if "cellIndex < MAX_SUPPLY" "claimedBy (run cs s0) cellIndex = 0"
    using inv_free_lt[OF i that] by (simp add: word_less_nat_alt totalSupply_def MAX_SUPPLY_def)
  have "claim sender cellIndex (run cs s0) \<noteq> Inl MaxSupplyReached"
    using l by (auto simp: claim_def mint_def split: if_splits)
  then show ?thesis using i l by (simp add: registry_inv_def claimed_def totalSupply_def)
qed

theorem cap_check_never_fires_witness:
  "constructor 13 = Inr (fresh, [OwnershipTransferred 0 13]) \<and>
   (6::uint256) < MAX_SUPPLY \<and> claimedBy (run [Claim 2 5] fresh) 6 = 0 \<and>
   totalSupply (run [Claim 2 5] fresh) < MAX_SUPPLY \<and>
   claim 3 6 (run [Claim 2 5] fresh) \<noteq> Inl MaxSupplyReached"
proof -
  have c: "constructor 13 = Inr (fresh, [OwnershipTransferred 0 13])"
    by (simp add: constructor_def fresh_def)
  have t: "(6::uint256) < MAX_SUPPLY \<and> claimedBy (run [Claim 2 5] fresh) 6 = 0"
    by (simp add: claim_def mint_def fresh_def MAX_SUPPLY_def totalSupply_def exec_def)
  show ?thesis
    using c t cap_check_never_fires [OF c, of 3 6 "[Claim 2 5]"] by simp
qed

section \<open>The owner's variant\<close>

text \<open>
  Where the registry invariant holds, \<open>ownerClaim(to, cellIndex)\<close> called by the owner
  and \<open>claim(cellIndex)\<close> called by \<open>to\<close> revert alike, and where they succeed they
  leave the same storage; \<open>claim\<close> returns \<open>true\<close> and emits one event more.
\<close>

lemma ownerClaim_agrees_with_claim:
  assumes "registry_inv s"
  shows "(case ownerClaim (owner s) to cellIndex s of
            Inl e \<Rightarrow> claim to cellIndex s = Inl e
          | Inr (s', evs) \<Rightarrow>
              claim to cellIndex s = Inr (True, s', evs @ [Claimed to cellIndex]))"
proof -
  have "totalSupply s < MAX_SUPPLY" if "cellIndex < MAX_SUPPLY" "claimedBy s cellIndex = 0"
    using inv_free_lt[OF assms that]
    by (simp add: word_less_nat_alt totalSupply_def MAX_SUPPLY_def)
  then show ?thesis
    by (auto simp: ownerClaim_def claim_def split: sum.splits)
qed

text \<open>
  Claim C5 says that \<open>ownerClaim(to, cellIndex)\<close> is the transition of \<open>claim(cellIndex)\<close>
  called by \<open>to\<close>, with the same emitted claim event. On the freshly deployed contract
  the owner's \<open>ownerClaim(2, 5)\<close> and the account \<open>2\<close>'s \<open>claim(5)\<close> both succeed and leave
  the same storage, but \<open>ownerClaim\<close> emits the mint's \<open>Transfer\<close> only: the event
  \<open>Claimed(2, 5)\<close>, which \<open>claim\<close> emits, is missing.
\<close>

theorem ownerClaim_emits_no_Claimed:
  "ownerClaim 13 2 5 fresh =
     Inr (fresh\<lparr>claimedBy := (claimedBy fresh)(5 := 2), erc20_totalSupply := 1,
                erc20_balances := (erc20_balances fresh)(2 := 1)\<rparr>,
          [Transfer 0 2 1]) \<and>
   claim 2 5 fresh =
     Inr (True,
          fresh\<lparr>claimedBy := (claimedBy fresh)(5 := 2), erc20_totalSupply := 1,
                 erc20_balances := (erc20_balances fresh)(2 := 1)\<rparr>,
          [Transfer 0 2 1, Claimed 2 5])"
  by (simp add: ownerClaim_def claim_def mint_def fresh_def MAX_SUPPLY_def totalSupply_def)

section \<open>The session's view\<close>

lemma Cell_sets:
  "remoteClaimedSet (snd (Cell columns columnIndex rowIndex s)) = remoteClaimedSet s \<and>
   clicked (snd (Cell columns columnIndex rowIndex s)) = clicked s"
  by (simp add: Cell_def Let_def)

lemma claimHandler_sets:
  "remoteClaimedSet (claimHandler i sent mined reads s) = remoteClaimedSet s \<and>
   clicked s \<subseteq> clicked (claimHandler i sent mined reads s)"
  by (auto simp: claimHandler_def refreshSupply_def Let_def split: promise.splits prod.splits)

lemma perform_grows:
  "remoteClaimedSet s \<subseteq> remoteClaimedSet (perform a s) \<and> clicked s \<subseteq> clicked (perform a s)"
proof (cases a)
  case (Render columns columnIndex rowIndex)
  then show ?thesis by (simp add: Cell_sets)
next
  case (IsClaimedThen cellIndex claimed_flag)
  then show ?thesis by (auto simp: isClaimed_then_def Let_def)
next
  case (IsClaimedCatch cellIndex)
  then show ?thesis by (simp add: isClaimed_catch_def)
next
  case (ClaimClick cellIndex sent mined reads)
  then show ?thesis using claimHandler_sets[of cellIndex sent mined reads s] by simp
next
  case (ConnectWallet connected)
  then show ?thesis by (simp add: connectWallet_def)
next
  case (RefreshSupply reads)
  then show ?thesis by (auto simp: refreshSupply_def split: promise.splits prod.splits)
qed

lemma session_run_grows:
  "remoteClaimedSet s \<subseteq> remoteClaimedSet (session_run acts s) \<and>
   clicked s \<subseteq> clicked (session_run acts s)"
proof (induction acts arbitrary: s)
  case Nil
  then show ?case by simp
next
  case (Cons a acts)
  show ?case using perform_grows[of s a] Cons.IH[of "perform a s"] by auto
qed

text \<open>A rendered cell is drawn with the view of its index.\<close>

lemma Cell_shows:
  "rowIndex * columns + columnIndex < 1000000 \<Longrightarrow>
   fst (Cell columns columnIndex rowIndex s) =
     Some (isClicked s (rowIndex * columns + columnIndex))"
  by (simp add: Cell_def Let_def isClicked_def)

text \<open>
  Claim C6. For every index \<open>i\<close>, once the view of \<open>i\<close> (membership in
  \<open>remoteClaimedSet\<close> or in \<open>clicked\<close>) is true in a session, it is true after every
  further sequence of steps of that session; neither \<open>remoteClaimedSet\<close> nor \<open>clicked\<close>
  ever loses a member.
\<close>

theorem view_monotone:
  assumes "isClicked s i"
  shows "isClicked (session_run acts s) i \<and>
         remoteClaimedSet s \<subseteq> remoteClaimedSet (session_run acts s) \<and>
         clicked s \<subseteq> clicked (session_run acts s)"
  using assms session_run_grows[of s acts] by (auto simp: isClicked_def)

theorem view_monotone_witness:
  "isClicked (session_run [ConnectWallet True,
                ClaimClick 7 (Fulfilled ()) (Fulfilled ()) (Fulfilled (1, 1000000))] App) 7 \<and>
   isClicked (session_run [Render 10 7 0, IsClaimedThen 7 False, IsClaimedCatch 7,
                RefreshSupply Rejected, ClaimClick 8 (Fulfilled ()) Rejected Rejected,
                IsClaimedThen 9 True]
      (session_run [ConnectWallet True,
         ClaimClick 7 (Fulfilled ()) (Fulfilled ()) (Fulfilled (1, 1000000))] App)) 7"
proof -
  have h: "isClicked (session_run [ConnectWallet True,
                ClaimClick 7 (Fulfilled ()) (Fulfilled ()) (Fulfilled (1, 1000000))] App) 7"
    by (simp add: App_def connectWallet_def claimHandler_def refreshSupply_def isClicked_def)
  show ?thesis
    using h view_monotone [OF h, of "[Render 10 7 0, IsClaimedThen 7 False, IsClaimedCatch 7,
                RefreshSupply Rejected, ClaimClick 8 (Fulfilled ()) Rejected Rejected,
                IsClaimedThen 9 True]"]
    by simp
qed

section \<open>The lazy lookups\<close>

text \<open>
  Claim C8, as stated, fails. The claim: for an index that is not known to be claimed,
  at most one \<open>isClaimed\<close> query is outstanding at any time, and a repeated render while
  a lookup is in flight issues no further query. Rendering the cell of index 5 twice
  in a new session, with no lookup settling in between, leaves two queries for 5
  outstanding.
\<close>

theorem no_inflight_dedup_counterexample:
  "5 \<notin> remoteClaimedSet App \<and>
   count_list (inflight (session_run [Render 10 5 0, Render 10 5 0] App)) 5 = 2"
  by (simp add: App_def Cell_def)

lemma count_list_snoc: "count_list (xs @ [x]) y = count_list xs y + (if x = y then 1 else 0)"
  by (induction xs) auto

lemma Cell_inflight:
  "rowIndex * columns + columnIndex < 1000000 \<Longrightarrow>
   count_list (inflight (snd (Cell columns columnIndex rowIndex s)))
     (rowIndex * columns + columnIndex) =
   count_list (inflight s) (rowIndex * columns + columnIndex) +
     (if rowIndex * columns + columnIndex \<in> remoteClaimedSet s then 0 else 1)"
  by (simp add: Cell_def Let_def count_list_snoc)

text \<open>
  Claim C8, amended. The renderer does not deduplicate lookups in flight: when the
  cell of an index below 1000000 is rendered \<open>n\<close> times with no lookup settling in
  between, the queries outstanding for that index grow by \<open>n\<close> if the index is not in
  \<open>remoteClaimedSet\<close> (one query per render), and by none if it is; only membership in
  \<open>remoteClaimedSet\<close> suppresses the query.
\<close>

theorem renders_issue_queries:
  assumes "cellIndex = rowIndex * columns + columnIndex" and "cellIndex < 1000000"
  shows "count_list
           (inflight (session_run (replicate n (Render columns columnIndex rowIndex)) s))
           cellIndex =
         count_list (inflight s) cellIndex + (if cellIndex \<in> remoteClaimedSet s then 0 else n)"
proof (induction n arbitrary: s)
  case 0
  then show ?case by simp
next
  case (Suc n)
  show ?case
    using assms Suc.IH[of "snd (Cell columns columnIndex rowIndex s)"]
      Cell_inflight[of rowIndex columns columnIndex s]
      Cell_sets[of columns columnIndex rowIndex s]
    by simp
qed

theorem renders_issue_queries_witness:
  "(5::int) = 0 * 10 + 5 \<and> (5::int) < 1000000 \<and>
   count_list (inflight (session_run (replicate 3 (Render 10 5 0)) App)) 5 = 3"
  using renders_issue_queries [of 5 0 10 5 3 App]
  by (simp add: App_def)

section \<open>The optimistic update\<close>

text \<open>
  Run with nothing in between, the steps of the handler give \<open>claimHandler\<close>.
\<close>

lemma claimHandler_steps:
  "claimHandler cellIndex sent mined reads s =
     (case claim_start s of
        Finished s' \<Rightarrow> s'
      | Suspended s1 \<Rightarrow>
          (case claim_sent sent s1 of
             Finished s' \<Rightarrow> s'
           | Suspended s2 \<Rightarrow>
               (case claim_mined mined s2 of
                  Finished s' \<Rightarrow> s'
                | Suspended s3 \<Rightarrow>
                    (case claim_refreshed cellIndex reads s3 of
                       Finished s' \<Rightarrow> s'
                     | Suspended s' \<Rightarrow> s'))))"
  by (simp add: claimHandler_def claim_start_def claim_sent_def claim_mined_def
      claim_refreshed_def Let_def split: promise.splits)

text \<open>No step of the handler removes a member of either set.\<close>

lemma claim_refreshed_grows:
  "claim_refreshed cellIndex reads s = Finished s' \<Longrightarrow>
   remoteClaimedSet s' = remoteClaimedSet s \<and> clicked s \<subseteq> clicked s'"
  by (auto simp: claim_refreshed_def refreshSupply_def split: promise.splits prod.splits)

lemma optimistic_update:
  "contract s \<Longrightarrow> \<not> txPending s \<Longrightarrow>
   i \<in> clicked (claimHandler i (Fulfilled tx) (Fulfilled u) (Fulfilled r) s)"
  by (cases r) (simp add: claimHandler_def refreshSupply_def)

text \<open>
  The success path of the handler. In a connected session with no transaction pending,
  when the three awaited calls (sending the transaction, waiting for it to be mined,
  refreshing the supply) are all fulfilled, the index is in \<open>clicked\<close> when the handler
  finishes; the handler does not touch \<open>remoteClaimedSet\<close>, and the view of the index
  then remains true after every further sequence of steps of the session.
\<close>

lemma optimistic_claim_view:
  assumes "contract s" and "\<not> txPending s"
  shows "isClicked (claimHandler i (Fulfilled tx) (Fulfilled u) (Fulfilled r) s) i \<and>
         remoteClaimedSet (claimHandler i (Fulfilled tx) (Fulfilled u) (Fulfilled r) s) =
           remoteClaimedSet s \<and>
         isClicked
           (session_run acts (claimHandler i (Fulfilled tx) (Fulfilled u) (Fulfilled r) s)) i"
proof -
  have c: "i \<in> clicked (claimHandler i (Fulfilled tx) (Fulfilled u) (Fulfilled r) s)"
    using assms by (rule optimistic_update)
  then have "i \<in> clicked
      (session_run acts (claimHandler i (Fulfilled tx) (Fulfilled u) (Fulfilled r) s))"
    using session_run_grows
      [of "claimHandler i (Fulfilled tx) (Fulfilled u) (Fulfilled r) s" acts]
    by auto
  then show ?thesis using c claimHandler_sets[of i "Fulfilled tx" "Fulfilled u" "Fulfilled r" s]
    by (simp add: isClicked_def)
qed

text \<open>
  Claim C9 says that after a successful \<open>claim(i)\<close> in a session the view of \<open>i\<close> is
  true immediately, before any remote confirmation for \<open>i\<close> arrives, and remains true.
  The code does not do this. In a connected session with no transaction pending, the
  cell 7 is clicked: the handler starts, \<open>contract.claim(7)\<close> is fulfilled and
  \<open>tx.wait()\<close> is fulfilled, so the claim is mined. The handler is then suspended at
  \<open>await refreshSupply()\<close> in the state \<open>awaiting\<close>, where the view of 7 is false and a
  render draws the cell as unclaimed. When \<open>refreshSupply()\<close> is then rejected, the
  handler leaves through \<open>catch\<close> before \<open>setClicked\<close> runs: it finishes in the state it
  started from, and the view of 7 is still false.
\<close>

theorem claim_mined_view_false:
  "claim_start (connectWallet True App) = Suspended awaiting \<and>
   claim_sent (Fulfilled ()) awaiting = Suspended awaiting \<and>
   claim_mined (Fulfilled ()) awaiting = Suspended awaiting \<and>
   isClicked awaiting 7 = False \<and>
   fst (Cell 10 7 0 awaiting) = Some False \<and>
   claim_refreshed 7 Rejected awaiting = Finished (connectWallet True App) \<and>
   isClicked (connectWallet True App) 7 = False \<and>
   claimHandler 7 (Fulfilled ()) (Fulfilled ()) Rejected (connectWallet True App) =
     connectWallet True App"
  by (simp add: App_def connectWallet_def awaiting_def claim_start_def claim_sent_def
      claim_mined_def claim_refreshed_def refreshSupply_def claimHandler_def isClicked_def
      Cell_def)

theorem claim_mined_view_false_witness:
  "7 \<notin> clicked awaiting \<and> 7 \<notin> remoteClaimedSet awaiting \<and>
   7 \<notin> clicked
     (claimHandler 7 (Fulfilled ()) (Fulfilled ()) Rejected (connectWallet True App)) \<and>
   7 \<notin> remoteClaimedSet
     (claimHandler 7 (Fulfilled ()) (Fulfilled ()) Rejected (connectWallet True App))"
  using claim_mined_view_false by (simp add: isClicked_def)

end
